theory Spec2Isabelle
  imports Main "HOL-Library.Sublist"
begin

section \<open>JavaScript strings\<close>

text \<open>
  A JavaScript string is a sequence of code units; it is modelled as a \<^typ>\<open>string\<close>, so
  the code units covered are those of the first 256 code points.  \<open>s.length\<close> is
  \<^term>\<open>length s\<close>, \<open>a + b\<close> is \<^term>\<open>a @ b\<close>, and \<open>s.slice(n)\<close> with
  \<open>0 \<le> n\<close> is \<^term>\<open>drop n s\<close> (the empty string when \<open>n\<close> is past the end).
  The empty string is falsy, every other string is truthy.
\<close>

definition js_whitespace :: "char \<Rightarrow> bool" where
  \<comment> \<open>WhiteSpace and LineTerminator of ECMAScript below code point 256:
      TAB, LF, VT, FF, CR, SP, NBSP.\<close>
  "js_whitespace c \<longleftrightarrow>
     c \<in> {CHR 0x09, CHR 0x0A, CHR 0x0B, CHR 0x0C, CHR 0x0D, CHR 0x20, CHR 0xA0}"

definition trimStart :: "string \<Rightarrow> string" where
  "trimStart s = dropWhile js_whitespace s"

definition trimEnd :: "string \<Rightarrow> string" where
  "trimEnd s = rev (dropWhile js_whitespace (rev s))"

definition trim :: "string \<Rightarrow> string" where
  \<comment> \<open>\<open>s.trim()\<close>\<close>
  "trim s = trimStart (trimEnd s)"

fun includes_str :: "string \<Rightarrow> string \<Rightarrow> bool" where
  \<comment> \<open>\<open>s.includes(pat)\<close>: \<open>pat\<close> occurs in \<open>s\<close> at some position\<close>
  "includes_str [] pat = (pat = [])"
| "includes_str (c # cs) pat = (prefix pat (c # cs) \<or> includes_str cs pat)"

function split_from :: "string \<Rightarrow> string \<Rightarrow> string \<Rightarrow> string list" where
  \<comment> \<open>scan for a non-empty separator from left to right; \<open>acc\<close> is the piece collected
      since the last match\<close>
  "split_from sep acc [] = [acc]"
| "split_from sep acc (c # cs) =
     (if sep \<noteq> [] \<and> prefix sep (c # cs)
      then acc # split_from sep [] (drop (length sep) (c # cs))
      else split_from sep (acc @ [c]) cs)"
  by pat_completeness auto
termination
  by (relation "measure (\<lambda>(sep, acc, s). length s)") (auto simp: neq_Nil_conv)

definition split :: "string \<Rightarrow> string \<Rightarrow> string list" where
  \<comment> \<open>\<open>s.split(sep)\<close>; an empty separator splits between all code units\<close>
  "split s sep = (if sep = [] then map (\<lambda>c. [c]) s else split_from sep [] s)"


section \<open>The dictation patch (src/app/layout.tsx)\<close>

text \<open>
  The properties of an event target that \<open>handleInput\<close> reads and writes.  \<open>value\<close> is
  \<open>undefined\<close> (\<^const>\<open>None\<close>) on an element that is no form control.
\<close>

record element =
  tagName :: string
  contentEditable :: string
  "value" :: "string option"
  textContent :: string
  innerText :: string

definition or_else :: "string \<Rightarrow> string \<Rightarrow> string" where
  \<comment> \<open>\<open>a || b\<close> on strings\<close>
  "or_else a b = (if a \<noteq> [] then a else b)"

definition currentValue :: "element \<Rightarrow> string" where
  \<comment> \<open>\<open>target.value || target.textContent || target.innerText || ''\<close>\<close>
  "currentValue t =
     or_else (case value t of None \<Rightarrow> [] | Some v \<Rightarrow> v)
       (or_else (textContent t) (or_else (innerText t) []))"

definition editable :: "element \<Rightarrow> bool" where
  \<comment> \<open>the negation of the early return of \<open>handleInput\<close>, for a target that is present\<close>
  "editable t \<longleftrightarrow>
     \<not> (tagName t \<noteq> ''INPUT'' \<and> tagName t \<noteq> ''TEXTAREA'' \<and> contentEditable t \<noteq> ''true'')"

definition duplicated :: "string \<Rightarrow> string \<Rightarrow> bool" where
  \<comment> \<open>the condition of the inner \<open>if\<close>, on \<open>finalValue\<close> and \<open>newPart\<close>\<close>
  "duplicated finalValue newPart \<longleftrightarrow>
     includes_str finalValue (newPart @ newPart)
     \<or> (length newPart > 0 \<and> length (split finalValue newPart) > 2)"

definition writeBack :: "element \<Rightarrow> string \<Rightarrow> element" where
  "writeBack t cleanValue =
     (if tagName t = ''INPUT'' \<or> tagName t = ''TEXTAREA''
      then t\<lparr>value := Some cleanValue\<rparr>
      else t\<lparr>textContent := cleanValue, innerText := cleanValue\<rparr>)"

record patch =
  lastInputValue :: string
  debounceTimer :: bool  \<comment> \<open>a timeout is pending\<close>
  target :: element      \<comment> \<open>the field the events come from\<close>
  dispatched :: nat      \<comment> \<open>synthetic input events dispatched so far\<close>

definition handleInput :: "patch \<Rightarrow> patch" where
  \<comment> \<open>an input or beforeinput event on the field: the pending timeout is cleared and a
      new one is set, unless the target is not editable\<close>
  "handleInput st = (if \<not> editable (target st) then st else st\<lparr>debounceTimer := True\<rparr>)"

definition onTimeout :: "patch \<Rightarrow> patch" where
  \<comment> \<open>the function passed to \<open>setTimeout\<close>, run 50ms after the last event.  The synthetic
      event it dispatches reaches \<open>handleInput\<close> before \<open>lastInputValue\<close> is assigned.\<close>
  "onTimeout st =
     (let st = st\<lparr>debounceTimer := False\<rparr>;
          finalValue = currentValue (target st)
      in if lastInputValue st \<noteq> [] \<and> length finalValue > length (lastInputValue st)
         then
           let newPart = drop (length (lastInputValue st)) finalValue
           in if duplicated finalValue newPart
              then
                let cleanValue = lastInputValue st @ newPart;
                    st = st\<lparr>target := writeBack (target st) cleanValue\<rparr>;
                    st = handleInput (st\<lparr>dispatched := Suc (dispatched st)\<rparr>)
                in st\<lparr>lastInputValue := cleanValue\<rparr>
              else st\<lparr>lastInputValue := finalValue\<rparr>
         else st\<lparr>lastInputValue := finalValue\<rparr>)"

datatype input_event =
  Typed string  \<comment> \<open>the field's content becomes this string and an input event fires\<close>
| Quiet         \<comment> \<open>50ms pass without an event\<close>

definition setContent :: "element \<Rightarrow> string \<Rightarrow> element" where
  \<comment> \<open>the browser (or the dictation service) puts new content into the field\<close>
  "setContent t s =
     (if tagName t = ''INPUT'' \<or> tagName t = ''TEXTAREA''
      then t\<lparr>value := Some s\<rparr>
      else t\<lparr>textContent := s, innerText := s\<rparr>)"

fun patch_step :: "patch \<Rightarrow> input_event \<Rightarrow> patch" where
  "patch_step st (Typed s) = handleInput (st\<lparr>target := setContent (target st) s\<rparr>)"
| "patch_step st Quiet = (if debounceTimer st then onTimeout st else st)"

definition patch_run :: "patch \<Rightarrow> input_event list \<Rightarrow> patch" where
  "patch_run st evs = foldl patch_step st evs"

definition inputField :: element where
  "inputField = \<lparr>tagName = ''INPUT'', contentEditable = ''inherit'', value = Some [],
                 textContent = [], innerText = []\<rparr>"

definition patch_init :: "element \<Rightarrow> patch" where
  \<comment> \<open>\<open>let lastInputValue = ''; let debounceTimer = null;\<close>\<close>
  "patch_init t = \<lparr>lastInputValue = [], debounceTimer = False, target = t, dispatched = 0\<rparr>"


section \<open>The recognition adapter (useSpeechRecognition)\<close>

definition toLowerCase :: "string \<Rightarrow> string" where
  \<comment> \<open>\<open>s.toLowerCase()\<close> on code units below 256: A-Z and the accented capitals
      (without the multiplication sign) move up by 32\<close>
  "toLowerCase s =
     map (\<lambda>c. let n = (of_char c :: nat)
              in if (65 \<le> n \<and> n \<le> 90) \<or> (192 \<le> n \<and> n \<le> 222 \<and> n \<noteq> 215)
                 then char_of (n + 32) else c) s"

text \<open>
  The two properties of \<open>window\<close> that hold a recognition constructor; \<^const>\<open>False\<close>
  stands for \<open>undefined\<close>.  Without a \<open>window\<close> (\<^const>\<open>None\<close>) no effect runs.
\<close>

record window =
  SpeechRecognition :: bool
  webkitSpeechRecognition :: bool

definition isSupported :: "window option \<Rightarrow> bool" where
  \<comment> \<open>the synchronous check of the hook\<close>
  "isSupported w =
     (case w of None \<Rightarrow> False
      | Some win \<Rightarrow> SpeechRecognition win \<or> webkitSpeechRecognition win)"

datatype native_call = NativeStart | NativeStop

record session =
  isListening :: bool
  transcript :: string
  error :: "string option"
  recognitionRef :: bool   \<comment> \<open>\<open>recognitionRef.current\<close> is not null\<close>
  isStartingRef :: bool
  nativeCalls :: "native_call list"  \<comment> \<open>calls made on the recognition object\<close>
  startTimers :: nat       \<comment> \<open>pending 50ms timeouts of \<open>startListening\<close>\<close>
  retryTimers :: nat       \<comment> \<open>pending 100ms timeouts of the retry\<close>

definition initial :: session where
  "initial = \<lparr>isListening = False, transcript = [], error = None, recognitionRef = False,
              isStartingRef = False, nativeCalls = [], startTimers = 0, retryTimers = 0\<rparr>"

definition mount :: "window option \<Rightarrow> session" where
  \<comment> \<open>the effect that runs once: it creates the recognition object and registers the
      three listeners on it, or reports that there is no constructor\<close>
  "mount w =
     (case w of None \<Rightarrow> initial
      | Some win \<Rightarrow>
          if \<not> (SpeechRecognition win \<or> webkitSpeechRecognition win)
          then initial\<lparr>error := Some ''Speech recognition is not supported in this browser''\<rparr>
          else initial\<lparr>recognitionRef := True\<rparr>)"

text \<open>A recognition result: \<open>isFinal\<close> and the transcript of its first alternative.\<close>

type_synonym speech_result = "bool \<times> string"

record speech_event =
  results :: "speech_result list"
  resultIndex :: nat

fun collectFinal :: "speech_result list \<Rightarrow> string \<times> bool \<Rightarrow> string \<times> bool" where
  \<comment> \<open>the \<open>for\<close> loop of the result listener over \<open>finalTranscript\<close> and
      \<open>hasFinalResults\<close>\<close>
  "collectFinal [] acc = acc"
| "collectFinal ((isFinal, t) # rs) (finalTranscript, hasFinalResults) =
     collectFinal rs
       (if isFinal then (finalTranscript @ t @ '' '', True)
        else (finalTranscript, hasFinalResults))"

definition finalText :: "speech_event \<Rightarrow> string \<times> bool" where
  "finalText ev = collectFinal (drop (resultIndex ev) (results ev)) ([], False)"

definition onResult :: "speech_event \<Rightarrow> session \<Rightarrow> session" where
  "onResult ev s =
     (let (finalTranscript, hasFinalResults) = finalText ev
      in if hasFinalResults \<and> trim finalTranscript \<noteq> []
         then s\<lparr>transcript := trim (transcript s @ '' '' @ finalTranscript)\<rparr>
         else s)"

definition onError :: "string \<Rightarrow> session \<Rightarrow> session" where
  \<comment> \<open>the error listener with the three early returns (part_002, 231-257)\<close>
  "onError code s =
     (let errorType = toLowerCase code
      in if errorType = ''aborted'' \<or> includes_str errorType ''aborted''
         then s\<lparr>isListening := False, isStartingRef := False, error := None\<rparr>
         else if errorType = ''no-speech'' \<or> errorType = ''audio-capture''
         then s\<lparr>isListening := False, isStartingRef := False, error := None\<rparr>
         else s\<lparr>error := Some (''Speech recognition error: '' @ code),
                isListening := False, isStartingRef := False\<rparr>)"

definition onError_v1 :: "string \<Rightarrow> session \<Rightarrow> session" where
  \<comment> \<open>the error listener of the first version of the hook (part_002, 82-86)\<close>
  "onError_v1 code s =
     s\<lparr>error := Some (''Speech recognition error: '' @ code), isListening := False\<rparr>"

definition onEnd :: "session \<Rightarrow> session" where
  "onEnd s = s\<lparr>isListening := False, isStartingRef := False\<rparr>"

definition startListening :: "bool \<Rightarrow> session \<Rightarrow> session" where
  \<comment> \<open>the synchronous part; an exception of the native \<open>stop\<close> is caught and ignored.
      The function is created in a render and reads \<open>isListening\<close> as that render had
      it (the first argument); \<open>isStartingRef.current\<close> is read from the ref.\<close>
  "startListening isListeningRendered s =
     (if \<not> recognitionRef s then s\<lparr>error := Some ''Speech recognition not available''\<rparr>
      else if isStartingRef s \<or> isListeningRendered then s
      else s\<lparr>nativeCalls := nativeCalls s @ [NativeStop],
             startTimers := Suc (startTimers s)\<rparr>)"

definition startTimeout :: "string option \<Rightarrow> session \<Rightarrow> session" where
  \<comment> \<open>the function run after 50ms.  The first argument is what the native \<open>start\<close> does:
      it returns (\<^const>\<open>None\<close>) or throws, with the message of the exception.\<close>
  "startTimeout thrown s =
     (if \<not> recognitionRef s \<or> isStartingRef s then s
      else
        let s = s\<lparr>transcript := [], error := None, isStartingRef := True,
                  isListening := True, nativeCalls := nativeCalls s @ [NativeStart]\<rparr>
        in case thrown of
             None \<Rightarrow> s
           | Some errorMessage \<Rightarrow>
               if includes_str (toLowerCase errorMessage) ''aborted''
               then s\<lparr>retryTimers := Suc (retryTimers s)\<rparr>
               else s\<lparr>error := Some ''Failed to start speech recognition'',
                      isListening := False, isStartingRef := False\<rparr>)"

definition retryTimeout :: "string option \<Rightarrow> session \<Rightarrow> session" where
  \<comment> \<open>the function run 100ms after an aborted start\<close>
  "retryTimeout thrown s =
     (if recognitionRef s \<and> \<not> isStartingRef s
      then
        let s = s\<lparr>nativeCalls := nativeCalls s @ [NativeStart]\<rparr>
        in case thrown of
             None \<Rightarrow> s
           | Some retryMessage \<Rightarrow>
               if \<not> includes_str (toLowerCase retryMessage) ''aborted''
               then s\<lparr>error := Some ''Failed to start speech recognition'',
                      isListening := False, isStartingRef := False\<rparr>
               else s\<lparr>isListening := False, isStartingRef := False, error := None\<rparr>
      else s)"

definition startListening_v1 :: "bool \<Rightarrow> session \<Rightarrow> session" where
  \<comment> \<open>\<open>startListening\<close> of the first version of the hook (part_002, 101-117); the
      first argument is whether the native \<open>start\<close> throws\<close>
  "startListening_v1 throws s =
     (if \<not> recognitionRef s then s\<lparr>error := Some ''Speech recognition not available''\<rparr>
      else
        let s = s\<lparr>transcript := [], error := None, isListening := True,
                  nativeCalls := nativeCalls s @ [NativeStart]\<rparr>
        in if throws
           then s\<lparr>error := Some ''Failed to start speech recognition'', isListening := False\<rparr>
           else s)"

definition stopListening :: "session \<Rightarrow> session" where
  "stopListening s =
     (let s = (if recognitionRef s then s\<lparr>nativeCalls := nativeCalls s @ [NativeStop]\<rparr>
               else s)
      in s\<lparr>isListening := False, isStartingRef := False\<rparr>)"


section \<open>The toggle button (VoiceInputButton)\<close>

record component =
  hook :: session
  supported :: bool          \<comment> \<open>\<open>isSupported\<close> as the hook returns it\<close>
  lastTranscriptRef :: string
  calls :: "string list"     \<comment> \<open>the arguments \<open>onTranscriptUpdate\<close> was called with, oldest first\<close>
  renderedListening :: bool  \<comment> \<open>\<open>isListening\<close> in the last render, as the handlers read it\<close>
  renderedTranscript :: string  \<comment> \<open>\<open>transcript\<close> in the last render, the effect's dependency\<close>

definition forwardDelta :: "component \<Rightarrow> component" where
  \<comment> \<open>the body of the effect on \<open>[transcript, onTranscriptUpdate]\<close>; it is the same in
      both versions of the button\<close>
  "forwardDelta c =
     (if transcript (hook c) \<noteq> [] \<and> transcript (hook c) \<noteq> lastTranscriptRef c
      then
        let lastLength = length (lastTranscriptRef c);
            newPart = trim (drop lastLength (transcript (hook c)))
        in if newPart \<noteq> []
           then c\<lparr>calls := calls c @ [newPart], lastTranscriptRef := transcript (hook c)\<rparr>
           else c
      else c)"

definition handleClick :: "component \<Rightarrow> component" where
  \<comment> \<open>\<open>isListening\<close> here and in the \<open>startListening\<close> it calls is that of the last
      render\<close>
  "handleClick c =
     (if renderedListening c
      then (c\<lparr>hook := stopListening (hook c)\<rparr>)\<lparr>lastTranscriptRef := []\<rparr>
      else (c\<lparr>lastTranscriptRef := []\<rparr>)
             \<lparr>hook := startListening (renderedListening c) (hook c)\<rparr>)"

text \<open>An offset pair in pixels, and a bounding rectangle reduced to the two edges read.\<close>

record 'n offset =
  right :: 'n
  bottom :: 'n

text \<open>What \<open>findWrapperAndPositionButton\<close> finds in the document when it runs.\<close>

record 'n dom =
  container :: "'n offset option"          \<comment> \<open>\<open>containerRef.current\<close> and its rectangle\<close>
  wrapperInContainer :: "'n offset option" \<comment> \<open>\<open>.ck-wrapper\<close> under the container\<close>
  wrapperInShadow :: "'n offset option"    \<comment> \<open>\<open>.ck-wrapper\<close> under the widget's shadow root\<close>
  buttonMounted :: bool                    \<comment> \<open>\<open>buttonRef.current\<close> is set\<close>

definition findWrapperAndPositionButton ::
  "('n::{numeral,minus}) dom \<Rightarrow> 'n offset option \<Rightarrow> 'n offset option" where
  \<comment> \<open>the new value of \<open>buttonPosition\<close>\<close>
  "findWrapperAndPositionButton d buttonPosition =
     (case container d of
        None \<Rightarrow> buttonPosition
      | Some containerRect \<Rightarrow>
          let ckWrapper = (case wrapperInContainer d of
                             Some w \<Rightarrow> Some w
                           | None \<Rightarrow> wrapperInShadow d)
          in case ckWrapper of
               None \<Rightarrow> buttonPosition
             | Some wrapperRect \<Rightarrow>
                 if buttonMounted d
                 then Some \<lparr>right = right containerRect - right wrapperRect + 190,
                            bottom = bottom containerRect - bottom wrapperRect + 32\<rparr>
                 else buttonPosition)"

definition positionStyle :: "('n::numeral) offset option \<Rightarrow> 'n offset" where
  \<comment> \<open>the \<open>right\<close> and \<open>bottom\<close> of the button's style, in px\<close>
  "positionStyle buttonPosition =
     (case buttonPosition of
        Some p \<Rightarrow> \<lparr>right = right p, bottom = bottom p\<rparr>
      | None \<Rightarrow> \<lparr>right = 210, bottom = 32\<rparr>)"

definition resolved :: "'n dom \<Rightarrow> bool" where
  \<comment> \<open>the condition under which \<open>setButtonPosition\<close> is called\<close>
  "resolved d \<longleftrightarrow>
     container d \<noteq> None \<and> (wrapperInContainer d \<noteq> None \<or> wrapperInShadow d \<noteq> None)
     \<and> buttonMounted d"

definition positionAfter :: "('n::{numeral,minus}) dom list \<Rightarrow> 'n offset option" where
  \<comment> \<open>\<open>buttonPosition\<close> after the attempts in the list, from the initial \<open>null\<close>\<close>
  "positionAfter ds = foldl (\<lambda>pos d. findWrapperAndPositionButton d pos) None ds"

text \<open>What the component returns: nothing, or a button (with an error box beside it).\<close>

record 'n view =
  disabled :: bool
  recording :: bool                \<comment> \<open>the stop icon is shown\<close>
  style :: "'n offset option"      \<comment> \<open>the inline style; the first version has classes only\<close>
  errorBox :: "string option"

definition render_v1 :: "component \<Rightarrow> 'n view option" where
  \<comment> \<open>part_000: \<open>if (!isSupported) return null\<close>\<close>
  "render_v1 c =
     (if \<not> supported c then None
      else Some \<lparr>disabled = False, recording = isListening (hook c), style = None,
                 errorBox = (case error (hook c) of
                               None \<Rightarrow> None
                             | Some e \<Rightarrow> if e \<noteq> [] then Some e else None)\<rparr>)"

definition render_v2 :: "('n::numeral) offset option \<Rightarrow> bool \<Rightarrow> component \<Rightarrow> 'n view option" where
  \<comment> \<open>part_001: the button is always returned, with \<open>disabled={!isSupported}\<close>; the
      second argument is whether \<open>buttonRef.current\<close> is set\<close>
  "render_v2 buttonPosition mounted c =
     Some \<lparr>disabled = \<not> supported c, recording = isListening (hook c),
            style = Some (positionStyle buttonPosition),
            errorBox = (case error (hook c) of
                          None \<Rightarrow> None
                        | Some e \<Rightarrow> if e \<noteq> [] \<and> mounted then Some e else None)\<rparr>"

definition styleOf :: "'n view option \<Rightarrow> 'n offset option" where
  \<comment> \<open>the inline style of the button that is returned, if one is\<close>
  "styleOf v = (case v of None \<Rightarrow> None | Some b \<Rightarrow> style b)"

definition interactive :: "'n view option \<Rightarrow> bool" where
  \<comment> \<open>there is a control that reacts to a click\<close>
  "interactive v = (case v of None \<Rightarrow> False | Some b \<Rightarrow> \<not> disabled b)"

datatype event =
  Click                        \<comment> \<open>the user clicks where the button is\<close>
| Result speech_event          \<comment> \<open>the recognition object fires \<open>result\<close>\<close>
| Error string                 \<comment> \<open>it fires \<open>error\<close> with this code\<close>
| End                          \<comment> \<open>it fires \<open>end\<close>\<close>
| StartTimeout "string option" \<comment> \<open>a 50ms timeout of \<open>startListening\<close> expires\<close>
| RetryTimeout "string option" \<comment> \<open>a 100ms retry timeout expires\<close>
| NewCallback                  \<comment> \<open>the parent passes another \<open>onTranscriptUpdate\<close>\<close>

definition mountButton :: "window option \<Rightarrow> component" where
  "mountButton w =
     \<lparr>hook = mount w, supported = isSupported w, lastTranscriptRef = [], calls = [],
      renderedListening = False, renderedTranscript = []\<rparr>"

fun dispatch :: "component \<Rightarrow> event \<Rightarrow> component" where
  \<comment> \<open>the handler the event reaches.  A click reaches \<open>handleClick\<close> when the button is
      there and not disabled; the recognition events need the recognition object, on which
      the listeners are registered; a timeout needs to be pending.\<close>
  "dispatch c Click = (if supported c then handleClick c else c)"
| "dispatch c (Result ev) =
     (if recognitionRef (hook c) then c\<lparr>hook := onResult ev (hook c)\<rparr> else c)"
| "dispatch c (Error code) =
     (if recognitionRef (hook c) then c\<lparr>hook := onError code (hook c)\<rparr> else c)"
| "dispatch c End = (if recognitionRef (hook c) then c\<lparr>hook := onEnd (hook c)\<rparr> else c)"
| "dispatch c (StartTimeout thrown) =
     (if startTimers (hook c) > 0
      then c\<lparr>hook := startTimeout thrown ((hook c)\<lparr>startTimers := startTimers (hook c) - 1\<rparr>)\<rparr>
      else c)"
| "dispatch c (RetryTimeout thrown) =
     (if retryTimers (hook c) > 0
      then c\<lparr>hook := retryTimeout thrown ((hook c)\<lparr>retryTimers := retryTimers (hook c) - 1\<rparr>)\<rparr>
      else c)"
| "dispatch c NewCallback = c"

definition commit :: "bool \<Rightarrow> component \<Rightarrow> component" where
  \<comment> \<open>a render: the effect runs when one of its dependencies has changed since the last
      render, \<open>transcript\<close> or \<open>onTranscriptUpdate\<close> (the first argument says that
      the callback is a new one); then the handlers are those of this render\<close>
  "commit newCallback c =
     (let c' = (if transcript (hook c) \<noteq> renderedTranscript c \<or> newCallback
                then forwardDelta c else c)
      in c'\<lparr>renderedListening := isListening (hook c),
             renderedTranscript := transcript (hook c)\<rparr>)"

definition step :: "component \<Rightarrow> event \<Rightarrow> component" where
  \<comment> \<open>one event and the render after it\<close>
  "step c ev = commit (ev = NewCallback) (dispatch c ev)"

definition run :: "component \<Rightarrow> event list \<Rightarrow> component" where
  \<comment> \<open>the schedule with a render after every event\<close>
  "run c evs = foldl step c evs"

definition batch :: "component \<Rightarrow> event list \<Rightarrow> component" where
  \<comment> \<open>several events handled before one render\<close>
  "batch c evs = commit (NewCallback \<in> set evs) (foldl dispatch c evs)"

definition runBatches :: "component \<Rightarrow> event list list \<Rightarrow> component" where
  \<comment> \<open>any schedule: the events in groups, a render after each group\<close>
  "runBatches c bs = foldl batch c bs"

definition final :: "string \<Rightarrow> event" where
  \<comment> \<open>a result event with one finalized result\<close>
  "final t = Result \<lparr>results = [(True, t)], resultIndex = 0\<rparr>"

definition blank :: "string \<Rightarrow> bool" where
  \<comment> \<open>empty or whitespace only\<close>
  "blank s \<longleftrightarrow> list_all js_whitespace s"


definition benign :: "string \<Rightarrow> bool" where
  \<comment> \<open>the codes for which the error listener returns early\<close>
  "benign code \<longleftrightarrow>
     includes_str (toLowerCase code) ''aborted''
     \<or> toLowerCase code = ''no-speech'' \<or> toLowerCase code = ''audio-capture''"

definition otherCodes :: "string list" where
  \<comment> \<open>the error codes of a recognition object besides \<open>aborted\<close>, \<open>no-speech\<close> and
      \<open>audio-capture\<close>\<close>
  "otherCodes = [''network'', ''not-allowed'', ''service-not-allowed'', ''bad-grammar'',
                 ''language-not-supported'', ''phrases-not-supported'']"






definition chrome :: "window option" where
  \<comment> \<open>a browser with the prefixed constructor only\<close>
  "chrome = Some \<lparr>SpeechRecognition = False, webkitSpeechRecognition = True\<rparr>"

definition noSpeech :: "window option" where
  \<comment> \<open>a browser without a recognition constructor\<close>
  "noSpeech = Some \<lparr>SpeechRecognition = False, webkitSpeechRecognition = False\<rparr>"


definition listening :: component where
  \<comment> \<open>a session that has just started: one click, and the 50ms timeout with a native
      \<open>start\<close> that returns\<close>
  "listening = run (mountButton chrome) [Click, StartTimeout None]"

definition echoed :: patch where
  \<comment> \<open>\<open>Bonjour\<close> was committed, the field now holds it twice, the timeout is pending\<close>
  "echoed = \<lparr>lastInputValue = ''Bonjour'', debounceTimer = True,
             target = inputField\<lparr>value := Some ''BonjourBonjour''\<rparr>, dispatched = 0\<rparr>"

definition guarded :: "component \<Rightarrow> bool" where
  \<comment> \<open>the flags are only set while there is a recognition object, and the listening
      state is only set together with the starting flag\<close>
  "guarded c \<longleftrightarrow>
     (isStartingRef (hook c) \<or> renderedListening c \<longrightarrow> recognitionRef (hook c))
     \<and> (isListening (hook c) \<longrightarrow> isStartingRef (hook c))"




definition startingUnrendered :: component where
  \<comment> \<open>the 50ms timeout has set the starting flag, no render has followed yet\<close>
  "startingUnrendered = foldl dispatch (mountButton chrome) [Click, StartTimeout None]"

definition listening_v1 :: session where
  \<comment> \<open>the first version of the hook after \<open>startListening\<close>\<close>
  "listening_v1 = startListening_v1 False (mount chrome)"

definition unresolvedDom :: "int dom" where
  \<comment> \<open>the widget has not rendered its wrapper yet\<close>
  "unresolvedDom = \<lparr>container = Some \<lparr>right = 800, bottom = 600\<rparr>, wrapperInContainer = None,
                     wrapperInShadow = None, buttonMounted = True\<rparr>"

definition resolvedDom :: "int dom" where
  \<comment> \<open>the wrapper is found under the shadow root\<close>
  "resolvedDom = \<lparr>container = Some \<lparr>right = 800, bottom = 600\<rparr>, wrapperInContainer = None,
                   wrapperInShadow = Some \<lparr>right = 790, bottom = 590\<rparr>, buttonMounted = True\<rparr>"

definition blankDelta :: component where
  \<comment> \<open>the transcript differs from the marker by white space only\<close>
  "blankDelta = listening\<lparr>hook := (hook listening)\<lparr>transcript := ''hello ''\<rparr>,
                          lastTranscriptRef := ''hello''\<rparr>"



definition onlyStarting :: session where
  \<comment> \<open>the starting flag is set, the listening state is not\<close>
  "onlyStarting = (mount chrome)\<lparr>isStartingRef := True\<rparr>"

definition onlyListening :: session where
  \<comment> \<open>the listening state is set, the starting flag is not\<close>
  "onlyListening = (mount chrome)\<lparr>isListening := True\<rparr>"


section \<open>Trimming\<close>

lemma blank_Nil: "blank []" by (simp add: blank_def)

lemma blank_append: "blank (a @ b) \<longleftrightarrow> blank a \<and> blank b"
  by (simp add: blank_def)

lemma blank_rev: "blank (rev s) = blank s"
  by (simp add: blank_def list_all_iff)


lemma trimEnd_Nil_iff: "trimEnd s = [] \<longleftrightarrow> blank s"
  by (simp add: trimEnd_def blank_def dropWhile_eq_Nil_conv list_all_iff)

lemma blank_trimEnd: "blank (trimEnd s) = blank s"
proof -
  have "rev s = takeWhile js_whitespace (rev s) @ dropWhile js_whitespace (rev s)" by simp
  then have "blank (rev s) = (blank (takeWhile js_whitespace (rev s)) \<and> blank (dropWhile js_whitespace (rev s)))"
    by (metis blank_append)
  moreover have "blank (takeWhile js_whitespace (rev s))"
    by (auto simp: blank_def list_all_iff dest: set_takeWhileD)
  ultimately show ?thesis by (simp add: trimEnd_def blank_rev)
qed


lemma trimEnd_append: "\<not> blank y \<Longrightarrow> trimEnd (x @ y) = x @ trimEnd y"
proof -
  assume "\<not> blank y"
  then obtain c where "c \<in> set (rev y)" and "\<not> js_whitespace c"
    by (auto simp: blank_def list_all_iff)
  then have "dropWhile js_whitespace (rev y @ rev x) = dropWhile js_whitespace (rev y) @ rev x"
    by (rule dropWhile_append1)
  then show ?thesis by (simp add: trimEnd_def)
qed

lemma trimStart_blank_append: "blank x \<Longrightarrow> trimStart (x @ y) = trimStart y"
  by (simp add: trimStart_def blank_def list_all_iff dropWhile_append2)

lemma trimStart_fixed: "s \<noteq> [] \<Longrightarrow> \<not> js_whitespace (hd s) \<Longrightarrow> trimStart (s @ y) = s @ y"
  by (cases s) (simp_all add: trimStart_def)

lemma hd_trimStart: "trimStart s \<noteq> [] \<Longrightarrow> \<not> js_whitespace (hd (trimStart s))"
  unfolding trimStart_def by (rule hd_dropWhile)

lemma hd_trim: "trim s \<noteq> [] \<Longrightarrow> \<not> js_whitespace (hd (trim s))"
  unfolding trim_def by (rule hd_trimStart)

lemma not_blank_trim: "trim s \<noteq> [] \<Longrightarrow> \<not> blank (trim s)"
  using hd_trim [of s] by (cases "trim s") (auto simp: blank_def)

lemma trimEnd_idem: "trimEnd (trimEnd s) = trimEnd s"
proof (cases "blank s")
  case True
  then show ?thesis by (metis trimEnd_Nil_iff blank_trimEnd)
next
  case False
  then have "dropWhile js_whitespace (rev s) \<noteq> []"
    by (simp add: dropWhile_eq_Nil_conv blank_def list_all_iff)
  then have "\<not> js_whitespace (hd (dropWhile js_whitespace (rev s)))"
    by (rule hd_dropWhile)
  then have "dropWhile js_whitespace (dropWhile js_whitespace (rev s)) = dropWhile js_whitespace (rev s)"
    by (cases "dropWhile js_whitespace (rev s)") auto
  then show ?thesis by (simp add: trimEnd_def)
qed

lemma space_blank: "blank '' ''"
  by (simp add: blank_def js_whitespace_def)

text \<open>the transcript after a result with non-blank final text\<close>
lemma trim_extend:
  assumes p: "trim p = p" and ft: "\<not> blank ft"
  shows "trim (p @ '' '' @ ft) = (if p = [] then trim ft else p @ '' '' @ trimEnd ft)"
proof -
  have e: "trimEnd (p @ '' '' @ ft) = p @ '' '' @ trimEnd ft"
    using trimEnd_append [OF ft, of "p @ '' ''"] by simp
  show ?thesis
  proof (cases "p = []")
    case True
    then show ?thesis
      using e trimStart_blank_append [OF space_blank, of "trimEnd ft"] by (simp add: trim_def)
  next
    case False
    then have "\<not> js_whitespace (hd p)" using hd_trim [of p] p by simp
    then show ?thesis using False e trimStart_fixed [of p "'' '' @ trimEnd ft"]
      by (simp add: trim_def)
  qed
qed


lemma trimEnd_trim: "trimEnd (trim s) = trim s"
proof (cases "blank (trim s)")
  case True
  then have "trim s = []" using not_blank_trim [of s] by blast
  then show ?thesis by (simp add: trimEnd_def)
next
  case False
  let ?u = "trimEnd s"
  have split: "?u = takeWhile js_whitespace ?u @ trim s"
    by (simp add: trim_def trimStart_def)
  have "trimEnd ?u = takeWhile js_whitespace ?u @ trimEnd (trim s)"
    using trimEnd_append [OF False, of "takeWhile js_whitespace ?u"] split by simp
  then have "takeWhile js_whitespace ?u @ trim s = takeWhile js_whitespace ?u @ trimEnd (trim s)"
    using split by (simp add: trimEnd_idem)
  then show ?thesis by simp
qed

lemma trim_idem: "trim (trim s) = trim s"
proof -
  have "trim (trim s) = trimStart (trim s)" by (simp add: trim_def [of "trim s"] trimEnd_trim)
  also have "\<dots> = trim s" by (simp add: trim_def trimStart_def)
  finally show ?thesis .
qed

lemma trim_delta:
  assumes p: "trim p = p" and ft: "\<not> blank ft"
  shows "trim (drop (length p) (trim (p @ '' '' @ ft))) = trim ft"
proof (cases "p = []")
  case True
  then show ?thesis using trim_extend [OF p ft] by (simp add: trim_idem)
next
  case False
  have nb: "\<not> blank (trimEnd ft)" using ft by (simp add: blank_trimEnd)
  have "trimEnd ('' '' @ trimEnd ft) = '' '' @ trimEnd ft"
    using trimEnd_append [OF nb, of "'' ''"] by (simp add: trimEnd_idem)
  then have "trim ('' '' @ trimEnd ft) = trimStart ('' '' @ trimEnd ft)"
    by (simp add: trim_def)
  also have "\<dots> = trim ft"
    using trimStart_blank_append [OF space_blank, of "trimEnd ft"] by (simp add: trim_def)
  finally show ?thesis using False trim_extend [OF p ft] by simp
qed










section \<open>The dictation patch\<close>

text \<open>
  C1.  With \<open>Bonjour\<close> committed and \<open>BonjourBonjour\<close> in the field after the quiet
  period, the duplicate condition holds and the patch writes and dispatches, but what it
  writes is \<open>lastInputValue + newPart\<close>, which is \<open>BonjourBonjour\<close> again: the field is
  not reduced to \<open>Bonjour\<close>.
\<close>

theorem dictation_echo_not_collapsed:
  "currentValue (target (patch_run (patch_init inputField)
      [Typed ''Bonjour'', Quiet, Typed ''BonjourBonjour'', Quiet])) = ''BonjourBonjour''
   \<and> dispatched (patch_run (patch_init inputField)
      [Typed ''Bonjour'', Quiet, Typed ''BonjourBonjour'', Quiet]) = 1
   \<and> currentValue (target (onTimeout echoed)) = ''BonjourBonjour''"
  by code_simp









section \<open>Forwarding transcript deltas\<close>














lemma runBatches_Cons: "runBatches c (b # bs) = runBatches (batch c b) bs"
  by (simp add: runBatches_def)









lemma run_is_runBatches: "run c evs = runBatches c (map (\<lambda>ev. [ev]) evs)"
  by (induction evs arbitrary: c) (simp_all add: run_def runBatches_def batch_def step_def eq_commute [of NewCallback])


section \<open>Recognition errors\<close>

lemma includes_str_refl: "includes_str s s"
  by (cases s) simp_all

lemma includes_str_suffix: "includes_str (a @ b) b"
  by (induction a) (simp_all add: includes_str_refl)

lemma onError_benign:
  "benign code \<Longrightarrow>
   onError code s = s\<lparr>isListening := False, isStartingRef := False, error := None\<rparr>"
  by (auto simp: onError_def benign_def Let_def)

lemma onError_other:
  "\<not> benign code \<Longrightarrow>
   onError code s = s\<lparr>error := Some (''Speech recognition error: '' @ code),
                       isListening := False, isStartingRef := False\<rparr>"
  by (auto simp: onError_def benign_def Let_def)

lemma benign_three: "benign ''aborted''" "benign ''no-speech''" "benign ''audio-capture''"
  by code_simp+

lemma otherCodes_not_benign: "list_all (\<lambda>code. \<not> benign code) otherCodes"
  by code_simp

text \<open>
  C3, as the code has it.  In the listener of the hook with the starting flag, the message
  is reset to null for the three codes \<open>aborted\<close>, \<open>no-speech\<close> and \<open>audio-capture\<close>
  (and for every code that contains \<open>aborted\<close> or equals one of the other two once
  lowercased); for every other code, the other codes of a recognition object among them,
  the message is \<open>Speech recognition error: \<close> followed by the code.  Both clear the
  two flags.  The listener of the first version of the hook sets that message for every
  code and clears the listening state.
\<close>

theorem error_policy:
  "(code \<in> {''aborted'', ''no-speech'', ''audio-capture''} \<longrightarrow> benign code)
   \<and> (code \<in> set otherCodes \<longrightarrow> \<not> benign code)
   \<and> (benign code \<longrightarrow> error (onError code s) = None)
   \<and> (\<not> benign code \<longrightarrow>
        error (onError code s) = Some (''Speech recognition error: '' @ code)
        \<and> includes_str (''Speech recognition error: '' @ code) code)
   \<and> \<not> isListening (onError code s) \<and> \<not> isStartingRef (onError code s)
   \<and> error (onError_v1 code s) = Some (''Speech recognition error: '' @ code)
   \<and> \<not> isListening (onError_v1 code s)"
proof -
  have "code \<in> {''aborted'', ''no-speech'', ''audio-capture''} \<Longrightarrow> benign code"
    using benign_three by auto
  moreover have "code \<in> set otherCodes \<Longrightarrow> \<not> benign code"
    using otherCodes_not_benign by (simp add: list_all_iff)
  moreover have "benign code \<Longrightarrow> error (onError code s) = None"
    by (simp add: onError_benign)
  moreover have "\<not> benign code \<Longrightarrow>
      error (onError code s) = Some (''Speech recognition error: '' @ code)"
    by (simp add: onError_other)
  moreover have "includes_str (''Speech recognition error: '' @ code) code"
    by (rule includes_str_suffix)
  moreover have "\<not> isListening (onError code s) \<and> \<not> isStartingRef (onError code s)"
    by (cases "benign code") (simp_all add: onError_benign onError_other)
  moreover have "error (onError_v1 code s) = Some (''Speech recognition error: '' @ code)
      \<and> \<not> isListening (onError_v1 code s)"
    by (simp add: onError_v1_def)
  ultimately show ?thesis by blast
qed

theorem error_policy_witness:
  "''aborted'' \<in> {''aborted'', ''no-speech'', ''audio-capture''} \<and> benign ''aborted''
   \<and> error (onError ''aborted'' (hook listening)) = None
   \<and> ''network'' \<in> set otherCodes \<and> \<not> benign ''network''
   \<and> error (onError ''network'' (hook listening)) = Some ''Speech recognition error: network''
   \<and> error (onError_v1 ''network'' listening_v1) = Some ''Speech recognition error: network''"
proof -
  have n: "''network'' \<in> set otherCodes" by (simp add: otherCodes_def)
  show ?thesis
    using error_policy [of "''aborted''" "hook listening"]
      error_policy [of "''network''" "hook listening"]
      error_policy [of "''network''" listening_v1] n
    by simp
qed

text \<open>
  C3 as stated fails in the first version of the hook: while it listens, an error event
  with the code \<open>aborted\<close> sets the message.
\<close>

theorem error_policy_counterexample:
  "''aborted'' \<in> {''aborted'', ''no-speech'', ''audio-capture''}
   \<and> isListening listening_v1 \<and> error listening_v1 = None
   \<and> error (onError_v1 ''aborted'' listening_v1) = Some ''Speech recognition error: aborted''"
  by code_simp


section \<open>Starting and stopping\<close>

text \<open>
  C4.  Every click sets the marker to the empty string.  A click that stops the session
  leaves the transcript in place, so the next result (the one the recognition object
  delivers for the audio it already has) makes the effect send the whole transcript:
  \<open>hello\<close>, sent before the click, is sent again inside \<open>hello world\<close>.
\<close>

theorem stop_click_resends_transcript:
  "lastTranscriptRef (handleClick c) = []
   \<and> calls (run (mountButton chrome) [Click, StartTimeout None, final ''hello'', Click])
       = [''hello'']
   \<and> calls (run (mountButton chrome)
        [Click, StartTimeout None, final ''hello'', Click, final ''world''])
       = [''hello'', ''hello world'']"
proof -
  have "lastTranscriptRef (handleClick c) = []" by (simp add: handleClick_def)
  moreover have
    "calls (run (mountButton chrome) [Click, StartTimeout None, final ''hello'', Click])
       = [''hello'']"
    by code_simp
  moreover have
    "calls (run (mountButton chrome)
        [Click, StartTimeout None, final ''hello'', Click, final ''world''])
       = [''hello'', ''hello world'']"
    by code_simp
  ultimately show ?thesis by blast
qed

text \<open>
  C10.  \<open>stopListening\<close> clears the listening flag and the starting flag and calls the
  native \<open>stop\<close> when there is a recognition object; the transcript, the error message and
  the pending timeouts stay as they are.
\<close>

theorem stopListening_frame:
  "stopListening s = s\<lparr>isListening := False, isStartingRef := False,
       nativeCalls := nativeCalls s @ (if recognitionRef s then [NativeStop] else [])\<rparr>
   \<and> transcript (stopListening s) = transcript s \<and> error (stopListening s) = error s
   \<and> \<not> isListening (stopListening s) \<and> \<not> isStartingRef (stopListening s)"
  by (simp add: stopListening_def)

lemma forwardDelta_hook: "hook (forwardDelta c) = hook c"
  by (simp add: forwardDelta_def Let_def)

lemma forwardDelta_rendered: "renderedListening (forwardDelta c) = renderedListening c"
  by (simp add: forwardDelta_def Let_def)

lemma guarded_dispatch:
  assumes g: "guarded c"
  shows "guarded (dispatch c ev)"
proof (cases ev)
  case Click
  then show ?thesis using g
    by (auto simp: guarded_def handleClick_def stopListening_def startListening_def)
next
  case (Result e)
  then show ?thesis using g
    by (auto simp: guarded_def onResult_def split: prod.splits)
next
  case (Error code)
  then show ?thesis using g
    by (auto simp: guarded_def onError_def Let_def)
next
  case End
  then show ?thesis using g
    by (auto simp: guarded_def onEnd_def)
next
  case (StartTimeout thrown)
  then show ?thesis using g
    by (auto simp: guarded_def startTimeout_def Let_def split: option.splits)
next
  case (RetryTimeout thrown)
  then show ?thesis using g
    by (auto simp: guarded_def retryTimeout_def Let_def split: option.splits)
next
  case NewCallback
  then show ?thesis using g by simp
qed

lemma guarded_handled: "guarded c \<Longrightarrow> guarded (foldl dispatch c evs)"
  by (induction evs arbitrary: c) (simp_all add: guarded_dispatch)

lemma guarded_commit: "guarded c \<Longrightarrow> guarded (commit n c)"
  by (auto simp: guarded_def commit_def Let_def forwardDelta_hook)

lemma guarded_batch: "guarded c \<Longrightarrow> guarded (batch c evs)"
  by (simp add: batch_def guarded_commit guarded_handled)

lemma guarded_runBatches: "guarded c \<Longrightarrow> guarded (runBatches c bs)"
  by (induction bs arbitrary: c) (simp_all add: runBatches_def guarded_batch)

lemma guarded_mount: "guarded (mountButton w)"
  by (auto simp: guarded_def mountButton_def mount_def initial_def split: option.splits)

lemma guard_returns:
  "recognitionRef s \<Longrightarrow> isStartingRef s \<or> l \<Longrightarrow> startListening l s = s"
  by (auto simp: startListening_def)

text \<open>
  C6.  Where there is a recognition object, \<open>startListening\<close> returns the state as it is
  when the starting flag is set or the \<open>isListening\<close> it reads is true, either alone:
  transcript, error and flags are unchanged, no native \<open>start\<close> or \<open>stop\<close> is called
  and no timeout is set.  In every state the component reaches from mount, under every
  schedule of renders and also between two renders, the recognition object is there as
  soon as the starting flag, the listening state or the rendered listening state is set,
  and the call of \<open>startListening\<close> with the rendered \<open>isListening\<close> returns the state
  as it is.
\<close>

theorem start_guard_leaves_session:
  "(recognitionRef s \<and> (isStartingRef s \<or> l) \<longrightarrow> startListening l s = s)
   \<and> (c = foldl dispatch (runBatches (mountButton w) bs) evs
        \<and> (isStartingRef (hook c) \<or> isListening (hook c) \<or> renderedListening c)
      \<longrightarrow> startListening (renderedListening c) (hook c) = hook c)"
proof (intro conjI impI)
  assume "recognitionRef s \<and> (isStartingRef s \<or> l)"
  then show "startListening l s = s" using guard_returns by blast
next
  assume a: "c = foldl dispatch (runBatches (mountButton w) bs) evs
        \<and> (isStartingRef (hook c) \<or> isListening (hook c) \<or> renderedListening c)"
  then have "guarded c"
    using guarded_handled [OF guarded_runBatches [OF guarded_mount]] by simp
  then have "recognitionRef (hook c)" and "isStartingRef (hook c) \<or> renderedListening c"
    using a by (auto simp: guarded_def)
  then show "startListening (renderedListening c) (hook c) = hook c" by (rule guard_returns)
qed

theorem start_guard_leaves_session_witness:
  "recognitionRef onlyStarting \<and> isStartingRef onlyStarting \<and> \<not> isListening onlyStarting
   \<and> startListening False onlyStarting = onlyStarting
   \<and> recognitionRef onlyListening \<and> \<not> isStartingRef onlyListening \<and> isListening onlyListening
   \<and> startListening (isListening onlyListening) onlyListening = onlyListening
   \<and> isStartingRef (hook startingUnrendered) \<and> \<not> renderedListening startingUnrendered
   \<and> startListening (renderedListening startingUnrendered) (hook startingUnrendered)
       = hook startingUnrendered"
proof -
  have a: "recognitionRef onlyStarting \<and> isStartingRef onlyStarting \<and> \<not> isListening onlyStarting"
    by code_simp
  have b: "recognitionRef onlyListening \<and> \<not> isStartingRef onlyListening \<and> isListening onlyListening"
    by code_simp
  have c: "isStartingRef (hook startingUnrendered) \<and> \<not> renderedListening startingUnrendered"
    by code_simp
  have d: "startingUnrendered
      = foldl dispatch (runBatches (mountButton chrome) []) [Click, StartTimeout None]"
    by (simp add: startingUnrendered_def runBatches_def)
  show ?thesis
    using start_guard_leaves_session [of onlyStarting False startingUnrendered chrome "[]"
        "[Click, StartTimeout None]"]
      start_guard_leaves_session [of onlyListening True] a b c d
    by simp
qed


section \<open>Without a recognition constructor\<close>

lemma run_Cons: "run c (e # es) = run (step c e) es"
  by (simp add: run_def)

lemma step_unsupported:
  assumes "\<not> supported c" and "\<not> recognitionRef (hook c)" and "startTimers (hook c) = 0"
    and "retryTimers (hook c) = 0" and "transcript (hook c) = []"
    and "renderedTranscript c = []" and "renderedListening c = isListening (hook c)"
  shows "step c ev = c"
proof -
  have "dispatch c ev = c" using assms by (cases ev) simp_all
  then show ?thesis using assms by (simp add: step_def commit_def forwardDelta_def)
qed

lemma run_unsupported:
  assumes "\<not> supported c" and "\<not> recognitionRef (hook c)" and "startTimers (hook c) = 0"
    and "retryTimers (hook c) = 0" and "transcript (hook c) = []"
    and "renderedTranscript c = []" and "renderedListening c = isListening (hook c)"
  shows "run c evs = c"
proof (induction evs)
  case Nil
  then show ?case by (simp add: run_def)
next
  case (Cons ev evs)
  then show ?case using step_unsupported [OF assms] by (simp add: run_Cons)
qed

lemma mount_unsupported: "\<not> isSupported w \<Longrightarrow> run (mountButton w) evs = mountButton w"
  by (rule run_unsupported)
     (auto simp: mountButton_def mount_def isSupported_def initial_def split: option.splits)

text \<open>
  C5.  When the check for a constructor is negative, the first version of the button
  returns nothing and the second a disabled button, so neither reacts to a click; and
  after every sequence of events the callback has not been called.
\<close>

theorem no_capability_no_callback:
  "\<not> isSupported w \<Longrightarrow>
     \<not> interactive (render_v1 (run (mountButton w) evs))
     \<and> \<not> interactive (render_v2 buttonPosition mounted (run (mountButton w) evs))
     \<and> calls (run (mountButton w) evs) = []"
  by (simp add: mount_unsupported)
     (simp add: mountButton_def interactive_def render_v1_def render_v2_def)

theorem no_capability_no_callback_witness:
  "\<not> isSupported noSpeech
   \<and> \<not> interactive (render_v1 (run (mountButton noSpeech)
          [Click, final ''hello'', NewCallback]) :: int view option)
   \<and> \<not> interactive (render_v2 (None :: int offset option) True
          (run (mountButton noSpeech) [Click, final ''hello'', NewCallback]))
   \<and> calls (run (mountButton noSpeech) [Click, final ''hello'', NewCallback]) = []"
proof -
  have h: "\<not> isSupported noSpeech" by code_simp
  show ?thesis
    using no_capability_no_callback [OF h, of "[Click, final ''hello'', NewCallback]"
        "None :: int offset option" True, where ?'a = int] h
    by simp
qed


text \<open>The same under every schedule of renders.\<close>

lemma handled_unsupported:
  assumes "\<not> supported c" and "\<not> recognitionRef (hook c)" and "startTimers (hook c) = 0"
    and "retryTimers (hook c) = 0"
  shows "foldl dispatch c evs = c"
proof (induction evs)
  case Nil
  then show ?case by simp
next
  case (Cons ev evs)
  have "dispatch c ev = c" using assms by (cases ev) simp_all
  then show ?case using Cons by simp
qed

lemma runBatches_unsupported:
  "\<not> isSupported w \<Longrightarrow> runBatches (mountButton w) bs = mountButton w"
proof (induction bs)
  case Nil
  then show ?case by (simp add: runBatches_def)
next
  case (Cons b bs)
  have h: "foldl dispatch (mountButton w) b = mountButton w"
    using Cons.prems
    by (intro handled_unsupported)
       (auto simp: mountButton_def mount_def isSupported_def initial_def split: option.splits)
  have "batch (mountButton w) b = mountButton w"
    using Cons.prems
    by (simp add: batch_def h)
       (auto simp: commit_def forwardDelta_def mountButton_def mount_def isSupported_def
          initial_def split: option.splits)
  then show ?case using Cons by (simp add: runBatches_Cons)
qed

section \<open>The position of the button\<close>

lemma find_unresolved: "\<not> resolved d \<Longrightarrow> findWrapperAndPositionButton d pos = pos"
  by (auto simp: resolved_def findWrapperAndPositionButton_def split: option.splits)

lemma foldl_unresolved:
  "\<forall>d \<in> set ds. \<not> resolved d \<Longrightarrow>
   foldl (\<lambda>pos d. findWrapperAndPositionButton d pos) pos ds = pos"
  by (induction ds arbitrary: pos) (simp_all add: find_unresolved)

lemma find_resolved:
  "resolved d \<Longrightarrow>
   \<exists>c w. container d = Some c
     \<and> (case wrapperInContainer d of Some w' \<Rightarrow> Some w' | None \<Rightarrow> wrapperInShadow d) = Some w
     \<and> findWrapperAndPositionButton d pos
         = Some \<lparr>right = right c - right w + 190, bottom = bottom c - bottom w + 32\<rparr>"
  by (auto simp: resolved_def findWrapperAndPositionButton_def split: option.splits)

lemma styleOf_render_v2: "styleOf (render_v2 pos mounted c) = Some (positionStyle pos)"
  by (simp add: styleOf_def render_v2_def)

text \<open>
  C7.  While no attempt has resolved the wrapper, \<open>buttonPosition\<close> is null and the
  button is returned with the style right 210px, bottom 32px.  After an attempt that
  resolved it (and whatever attempts came before, and failed ones after), the button is
  returned with the offset computed in that attempt from the two rectangles.
\<close>

theorem default_then_computed_offset:
  "((\<forall>d \<in> set ds. \<not> resolved d) \<longrightarrow>
      positionAfter ds = None
      \<and> positionStyle (positionAfter ds) = \<lparr>right = 210, bottom = 32\<rparr>
      \<and> render_v2 (positionAfter ds) mounted c \<noteq> None
      \<and> styleOf (render_v2 (positionAfter ds) mounted c) = Some \<lparr>right = 210, bottom = 32\<rparr>)
   \<and> (resolved d \<and> (\<forall>d' \<in> set ds'. \<not> resolved d') \<longrightarrow>
      (\<exists>cr w. container d = Some cr
         \<and> (case wrapperInContainer d of Some w' \<Rightarrow> Some w' | None \<Rightarrow> wrapperInShadow d)
             = Some w
         \<and> positionStyle (positionAfter (ds0 @ d # ds'))
             = \<lparr>right = right cr - right w + 190, bottom = bottom cr - bottom w + 32\<rparr>
         \<and> render_v2 (positionAfter (ds0 @ d # ds')) mounted c \<noteq> None
         \<and> styleOf (render_v2 (positionAfter (ds0 @ d # ds')) mounted c)
             = Some \<lparr>right = right cr - right w + 190, bottom = bottom cr - bottom w + 32\<rparr>))"
proof (intro conjI impI)
  assume "\<forall>d \<in> set ds. \<not> resolved d"
  then show n: "positionAfter ds = None" unfolding positionAfter_def by (rule foldl_unresolved)
  then show "positionStyle (positionAfter ds) = \<lparr>right = 210, bottom = 32\<rparr>"
    by (simp add: positionStyle_def)
  show "render_v2 (positionAfter ds) mounted c \<noteq> None" by (simp add: render_v2_def)
  show "styleOf (render_v2 (positionAfter ds) mounted c) = Some \<lparr>right = 210, bottom = 32\<rparr>"
    using n by (simp add: styleOf_render_v2 positionStyle_def)
next
  assume a: "resolved d \<and> (\<forall>d' \<in> set ds'. \<not> resolved d')"
  let ?pos = "foldl (\<lambda>pos d. findWrapperAndPositionButton d pos) None ds0"
  have "positionAfter (ds0 @ d # ds') = findWrapperAndPositionButton d ?pos"
    using a by (simp add: positionAfter_def foldl_unresolved)
  moreover obtain cr w where "container d = Some cr"
     "(case wrapperInContainer d of Some w' \<Rightarrow> Some w' | None \<Rightarrow> wrapperInShadow d) = Some w"
     "findWrapperAndPositionButton d ?pos
         = Some \<lparr>right = right cr - right w + 190, bottom = bottom cr - bottom w + 32\<rparr>"
    using find_resolved [of d ?pos] a by blast
  ultimately show "\<exists>cr w. container d = Some cr
         \<and> (case wrapperInContainer d of Some w' \<Rightarrow> Some w' | None \<Rightarrow> wrapperInShadow d)
             = Some w
         \<and> positionStyle (positionAfter (ds0 @ d # ds'))
             = \<lparr>right = right cr - right w + 190, bottom = bottom cr - bottom w + 32\<rparr>
         \<and> render_v2 (positionAfter (ds0 @ d # ds')) mounted c \<noteq> None
         \<and> styleOf (render_v2 (positionAfter (ds0 @ d # ds')) mounted c)
             = Some \<lparr>right = right cr - right w + 190, bottom = bottom cr - bottom w + 32\<rparr>"
    by (simp add: positionStyle_def styleOf_render_v2) (simp add: render_v2_def)
qed

theorem default_then_computed_offset_witness:
  "\<not> resolved unresolvedDom
   \<and> positionStyle (positionAfter [unresolvedDom, unresolvedDom]) = \<lparr>right = 210, bottom = 32\<rparr>
   \<and> styleOf (render_v2 (positionAfter [unresolvedDom, unresolvedDom]) True listening)
       = Some \<lparr>right = 210, bottom = 32\<rparr>
   \<and> resolved resolvedDom
   \<and> positionStyle (positionAfter ([unresolvedDom] @ resolvedDom # [unresolvedDom]))
       = \<lparr>right = 200, bottom = 42\<rparr>
   \<and> styleOf (render_v2 (positionAfter ([unresolvedDom] @ resolvedDom # [unresolvedDom]))
        True listening) = Some \<lparr>right = 200, bottom = 42\<rparr>"
proof -
  have u: "\<not> resolved unresolvedDom" by (simp add: resolved_def unresolvedDom_def)
  have r: "resolved resolvedDom" by (simp add: resolved_def resolvedDom_def)
  show ?thesis
    using default_then_computed_offset [of "[unresolvedDom, unresolvedDom]" True listening
        resolvedDom "[unresolvedDom]" "[unresolvedDom]"] u r
    by (simp add: resolvedDom_def positionStyle_def styleOf_render_v2)
qed


section \<open>What the callback receives\<close>

lemma dispatch_calls: "calls (dispatch c ev) = calls c"
  by (cases ev) (simp_all add: handleClick_def)

lemma forwardDelta_cases:
  "(trim (drop (length (lastTranscriptRef c)) (transcript (hook c))) = [] \<longrightarrow> forwardDelta c = c)
   \<and> (calls (forwardDelta c) = calls c
      \<or> calls (forwardDelta c)
          = calls c @ [trim (drop (length (lastTranscriptRef c)) (transcript (hook c)))]
        \<and> \<not> blank (trim (drop (length (lastTranscriptRef c)) (transcript (hook c)))))"
  using not_blank_trim [of "drop (length (lastTranscriptRef c)) (transcript (hook c))"]
  by (simp add: forwardDelta_def Let_def)

lemma forwardDelta_sound:
  "list_all (\<lambda>d. \<not> blank d) (calls c) \<Longrightarrow> list_all (\<lambda>d. \<not> blank d) (calls (forwardDelta c))"
  using forwardDelta_cases [of c] by auto

lemma commit_sound:
  "list_all (\<lambda>d. \<not> blank d) (calls c) \<Longrightarrow> list_all (\<lambda>d. \<not> blank d) (calls (commit n c))"
  using forwardDelta_sound [of c] by (simp add: commit_def Let_def)

lemma step_sound:
  "list_all (\<lambda>d. \<not> blank d) (calls c) \<Longrightarrow> list_all (\<lambda>d. \<not> blank d) (calls (step c ev))"
  using commit_sound [of "dispatch c ev"] by (simp add: step_def dispatch_calls)

lemma run_sound:
  "list_all (\<lambda>d. \<not> blank d) (calls c) \<Longrightarrow> list_all (\<lambda>d. \<not> blank d) (calls (run c evs))"
  by (induction evs arbitrary: c) (simp_all add: run_def step_sound)

text \<open>
  C9.  The effect either leaves the list of calls as it is or adds one call, with the
  trimmed part of the transcript after the first \<open>|marker|\<close> code units, and only when
  that is not empty (so it is not blank either); when it is empty the effect changes
  nothing, the marker included.  So after every sequence of events from mount, no string
  the callback received is empty or blank.
\<close>

theorem deltas_not_blank:
  "(let d = trim (drop (length (lastTranscriptRef c)) (transcript (hook c)))
    in (d = [] \<longrightarrow> forwardDelta c = c)
       \<and> (calls (forwardDelta c) = calls c
          \<or> calls (forwardDelta c) = calls c @ [d] \<and> d \<noteq> [] \<and> \<not> blank d))
   \<and> list_all (\<lambda>d. d \<noteq> [] \<and> \<not> blank d) (calls (run (mountButton w) evs))"
proof -
  have "list_all (\<lambda>d. \<not> blank d) (calls (run (mountButton w) evs))"
    by (rule run_sound) (simp add: mountButton_def)
  then have "list_all (\<lambda>d. d \<noteq> [] \<and> \<not> blank d) (calls (run (mountButton w) evs))"
    by (auto simp: list_all_iff blank_Nil)
  then show ?thesis using forwardDelta_cases [of c] by (auto simp: Let_def blank_Nil)
qed

theorem deltas_not_blank_witness:
  "trim (drop (length (lastTranscriptRef blankDelta)) (transcript (hook blankDelta))) = []
   \<and> forwardDelta blankDelta = blankDelta
   \<and> list_all (\<lambda>d. d \<noteq> [] \<and> \<not> blank d)
       (calls (run (mountButton chrome)
          [Click, StartTimeout None, final ''hello'', final ''  '', final '' world'']))"
proof -
  have h: "trim (drop (length (lastTranscriptRef blankDelta)) (transcript (hook blankDelta))) = []"
    by code_simp
  show ?thesis
    using deltas_not_blank [of blankDelta chrome
        "[Click, StartTimeout None, final ''hello'', final ''  '', final '' world'']"] h
    by (simp add: Let_def)
qed

text \<open>The same under every schedule of renders.\<close>

lemma handled_calls: "calls (foldl dispatch c evs) = calls c"
  by (induction evs arbitrary: c) (simp_all add: dispatch_calls)

lemma runBatches_sound:
  "list_all (\<lambda>d. \<not> blank d) (calls c) \<Longrightarrow>
   list_all (\<lambda>d. \<not> blank d) (calls (runBatches c bs))"
proof (induction bs arbitrary: c)
  case Nil
  then show ?case by (simp add: runBatches_def)
next
  case (Cons b bs)
  have "list_all (\<lambda>d. \<not> blank d) (calls (batch c b))"
    unfolding batch_def using Cons.prems by (intro commit_sound) (simp add: handled_calls)
  then show ?case using Cons.IH by (simp add: runBatches_Cons)
qed

end
